theory Spec2Isabelle
  imports Main "HOL-Library.AList"
begin

section \<open>Python values used by the CircuitMark parser\<close>

text \<open>
  A Python \<open>str\<close> is modelled as a \<open>string\<close> whose characters are the code points
  0..255, so the development covers documents written in Latin-1. Every exception the
  parser raises is a \<open>ValueError\<close> carrying one message; \<open>str(e)\<close> is that message.
\<close>

datatype error = ValueError string

text \<open>\<open>'{s}'\<close> inside an f-string.\<close>

definition quoted :: "string \<Rightarrow> string" where
  "quoted s = [CHR 0x27] @ s @ [CHR 0x27]"

text \<open>The characters for which \<open>str.isspace\<close> holds, below code point 256.\<close>

definition py_whitespace :: string where
  "py_whitespace = [CHR 0x09, CHR 0x0A, CHR 0x0B, CHR 0x0C, CHR 0x0D, CHR 0x1C, CHR 0x1D,
     CHR 0x1E, CHR 0x1F, CHR 0x20, CHR 0x85, CHR 0xA0]"

definition isspace :: "char \<Rightarrow> bool" where
  "isspace c = (c \<in> set py_whitespace)"

text \<open>\<open>s.strip(chars)\<close> and \<open>s.strip()\<close>.\<close>

definition strip_chars :: "string \<Rightarrow> string \<Rightarrow> string" where
  "strip_chars chars s =
     rev (dropWhile (\<lambda>c. c \<in> set chars) (rev (dropWhile (\<lambda>c. c \<in> set chars) s)))"

definition strip :: "string \<Rightarrow> string" where
  "strip s = strip_chars py_whitespace s"

text \<open>\<open>s.startswith(p)\<close>.\<close>

definition startswith :: "string \<Rightarrow> string \<Rightarrow> bool" where
  "startswith s p = (take (length p) s = p)"

text \<open>\<open>s.split(sep)\<close> for a separator of one character: never an empty list.\<close>

fun split_on :: "char \<Rightarrow> string \<Rightarrow> string list" where
  "split_on sep [] = [[]]"
| "split_on sep (c # cs) =
     (if c = sep then [] # split_on sep cs
      else (case split_on sep cs of
              [] \<Rightarrow> [[c]]
            | w # ws \<Rightarrow> (c # w) # ws))"

text \<open>
  \<open>s.split(sep, 1)\<close> on a string that contains \<open>sep\<close>: the text before the first
  separator and the text after it.
\<close>

definition split_once :: "char \<Rightarrow> string \<Rightarrow> string \<times> string" where
  "split_once sep s = (takeWhile (\<lambda>c. c \<noteq> sep) s, drop 1 (dropWhile (\<lambda>c. c \<noteq> sep) s))"

text \<open>
  \<open>s.split(maxsplit=1)\<close>: leading whitespace is skipped, the first word ends at the next
  whitespace, and what follows the whitespace after it is kept whole when it is not empty.
\<close>

definition split_maxsplit1 :: "string \<Rightarrow> string list" where
  "split_maxsplit1 s =
     (let s1 = dropWhile isspace s in
      if s1 = [] then []
      else (let w = takeWhile (\<lambda>c. \<not> isspace c) s1;
                r = dropWhile isspace (dropWhile (\<lambda>c. \<not> isspace c) s1)
            in if r = [] then [w] else [w, r]))"

text \<open>\<open>sep.join(xs)\<close>.\<close>

fun join :: "string \<Rightarrow> string list \<Rightarrow> string" where
  "join sep [] = []"
| "join sep [x] = x"
| "join sep (x # y # ys) = x @ sep @ join sep (y # ys)"

text \<open>
  \<open>s.lower()\<close> below code point 256: the letters A-Z and the Latin-1 capitals
  0xC0-0xDE (without the multiplication sign 0xD7) move up by 32.
\<close>

definition lower_char :: "char \<Rightarrow> char" where
  "lower_char c =
     (let n = (of_char c :: nat) in
      if (65 \<le> n \<and> n \<le> 90) \<or> (192 \<le> n \<and> n \<le> 222 \<and> n \<noteq> 215) then char_of (n + 32) else c)"

definition lower :: "string \<Rightarrow> string" where
  "lower s = map lower_char s"

text \<open>\<open>str(n)\<close> for a line number.\<close>

fun str_nat :: "nat \<Rightarrow> string" where
  "str_nat n =
     (if n < 10 then [''0123456789'' ! n]
      else str_nat (n div 10) @ [''0123456789'' ! (n mod 10)])"

text \<open>
  A Python \<open>dict\<close> is an association list in insertion order with unique keys:
  \<open>d[k] = v\<close> is \<open>AList.update k v d\<close>, which replaces the value of a key in place and
  appends a new key at the end.
\<close>

definition dict_contains :: "'k \<Rightarrow> ('k \<times> 'v) list \<Rightarrow> bool" where
  "dict_contains k d = (k \<in> set (map fst d))"

definition dict_values :: "('k \<times> 'v) list \<Rightarrow> 'v list" where
  "dict_values d = map snd d"

section \<open>shlex.split\<close>

text \<open>
  \<open>shlex.split(line)\<close> runs the standard library's lexer in POSIX mode with
  \<open>whitespace_split = True\<close>, no comment characters and no punctuation characters.
  The lexer's \<open>state\<close> is one of \<open>' '\<close>, \<open>'a'\<close>, a quote character or the escape
  character; \<open>escapedstate\<close> is the state an escape returns to. With
  \<open>whitespace_split\<close> a word character and any other character that is neither
  whitespace, escape nor quote are treated alike, so \<open>wordchars\<close> is not listed.
\<close>

datatype lexer_state = InWhitespace | InWord | InQuotes char | InEscape

definition shlex_whitespace :: string where
  "shlex_whitespace = [CHR 0x20, CHR 0x09, CHR 0x0D, CHR 0x0A]"

definition shlex_quotes :: string where
  "shlex_quotes = [CHR 0x27, CHR 0x22]"

definition shlex_escape :: string where
  "shlex_escape = [CHR 0x5C]"

definition shlex_escapedquotes :: string where
  "shlex_escapedquotes = [CHR 0x22]"

text \<open>A token that \<open>read_token\<close> returns is followed by the tokens of the later calls.\<close>

definition emit :: "string \<Rightarrow> error + string list \<Rightarrow> error + string list" where
  "emit token later = (case later of Inl e \<Rightarrow> Inl e | Inr ts \<Rightarrow> Inr (token # ts))"

text \<open>At the end of the input in state \<open>' '\<close> or \<open>'a'\<close>: an unquoted empty token is EOF.\<close>

definition at_eof :: "bool \<Rightarrow> string \<Rightarrow> error + string list" where
  "at_eof quoted_flag token = (if \<not> quoted_flag \<and> token = [] then Inr [] else Inr [token])"

fun read_tokens ::
  "lexer_state \<Rightarrow> lexer_state \<Rightarrow> bool \<Rightarrow> string \<Rightarrow> string \<Rightarrow> error + string list" where
  "read_tokens state escapedstate quoted_flag token [] =
     (case state of
        InWhitespace \<Rightarrow> at_eof quoted_flag token
      | InWord \<Rightarrow> at_eof quoted_flag token
      | InQuotes q \<Rightarrow> Inl (ValueError ''No closing quotation'')
      | InEscape \<Rightarrow> Inl (ValueError ''No escaped character''))"
| "read_tokens state escapedstate quoted_flag token (nextchar # rest) =
     (case state of
        InWhitespace \<Rightarrow>
          (if nextchar \<in> set shlex_whitespace then
             (if token \<noteq> [] \<or> quoted_flag
              then emit token (read_tokens InWhitespace InWhitespace False [] rest)
              else read_tokens InWhitespace escapedstate quoted_flag token rest)
           else if nextchar \<in> set shlex_escape then
             read_tokens InEscape InWord quoted_flag token rest
           else if nextchar \<in> set shlex_quotes then
             read_tokens (InQuotes nextchar) escapedstate quoted_flag token rest
           else read_tokens InWord escapedstate quoted_flag [nextchar] rest)
      | InQuotes q \<Rightarrow>
          (if nextchar = q then read_tokens InWord escapedstate True token rest
           else if nextchar \<in> set shlex_escape \<and> q \<in> set shlex_escapedquotes then
             read_tokens InEscape (InQuotes q) True token rest
           else read_tokens (InQuotes q) escapedstate True (token @ [nextchar]) rest)
      | InEscape \<Rightarrow>
          (case escapedstate of
             InQuotes q \<Rightarrow>
               (if nextchar \<notin> set shlex_escape \<and> nextchar \<noteq> q
                then read_tokens escapedstate escapedstate quoted_flag
                       (token @ shlex_escape @ [nextchar]) rest
                else read_tokens escapedstate escapedstate quoted_flag (token @ [nextchar]) rest)
           | _ \<Rightarrow> read_tokens escapedstate escapedstate quoted_flag (token @ [nextchar]) rest)
      | InWord \<Rightarrow>
          (if nextchar \<in> set shlex_whitespace then
             (if token \<noteq> [] \<or> quoted_flag
              then emit token (read_tokens InWhitespace InWhitespace False [] rest)
              else read_tokens InWhitespace escapedstate quoted_flag token rest)
           else if nextchar \<in> set shlex_quotes then
             read_tokens (InQuotes nextchar) escapedstate quoted_flag token rest
           else if nextchar \<in> set shlex_escape then
             read_tokens InEscape InWord quoted_flag token rest
           else read_tokens InWord escapedstate quoted_flag (token @ [nextchar]) rest))"

definition shlex_split :: "string \<Rightarrow> error + string list" where
  "shlex_split s = read_tokens InWhitespace InWhitespace False [] s"

section \<open>models.py\<close>

text \<open>
  The parser compares nodes by \<open>id\<close>. Every \<open>Node(...)\<close> that is created takes the
  next free identity from the counter \<open>next_ident\<close> of the circuit that creates it; the
  counter is the only field the Python classes do not have.
\<close>

record Node =
  node_ident :: nat
  node_name :: string

record Component =
  component_type :: string
  component_name :: string
  primary_value :: "string option"
  properties :: "(string \<times> string) list"
  connections :: "(string \<times> Node) list"

record SubcircuitDefinition =
  subcircuit_name :: string
  interface :: "string list"
  body_text :: string

record Circuit =
  components :: "(string \<times> Component) list"
  nodes :: "(string \<times> Node) list"
  subcircuit_definitions :: "(string \<times> SubcircuitDefinition) list"
  ground_node_name :: "string option"
  next_ident :: nat

definition new_Component :: "string \<Rightarrow> string \<Rightarrow> string option \<Rightarrow> Component" where
  "new_Component ctype cname pvalue =
     \<lparr>component_type = ctype, component_name = cname, primary_value = pvalue,
      properties = [], connections = []\<rparr>"

definition add_property :: "Component \<Rightarrow> string \<Rightarrow> string \<Rightarrow> Component" where
  "add_property self key v = self\<lparr>properties := AList.update key v (properties self)\<rparr>"

definition add_connection :: "Component \<Rightarrow> string \<Rightarrow> Node \<Rightarrow> Component" where
  "add_connection self pin_name node =
     self\<lparr>connections := AList.update pin_name node (connections self)\<rparr>"

definition new_SubcircuitDefinition :: "string \<Rightarrow> SubcircuitDefinition" where
  "new_SubcircuitDefinition sname = \<lparr>subcircuit_name = sname, interface = [], body_text = []\<rparr>"

definition new_Circuit :: Circuit where
  "new_Circuit =
     \<lparr>components = [], nodes = [], subcircuit_definitions = [], ground_node_name = None,
      next_ident = 0\<rparr>"

definition add_component :: "Circuit \<Rightarrow> Component \<Rightarrow> error + Circuit" where
  "add_component self component =
     (if dict_contains (component_name component) (components self)
      then Inl (ValueError (''Component name '' @ quoted (component_name component)
                  @ '' already exists.''))
      else Inr (self\<lparr>components :=
                  AList.update (component_name component) component (components self)\<rparr>))"

definition declare_node :: "Circuit \<Rightarrow> string \<Rightarrow> error + Circuit" where
  "declare_node self nname =
     (if dict_contains nname (nodes self)
      then Inl (ValueError (''Node '' @ quoted nname @ '' has already been declared.''))
      else Inr (self\<lparr>nodes := AList.update nname
                          \<lparr>node_ident = next_ident self, node_name = nname\<rparr> (nodes self),
                       next_ident := Suc (next_ident self)\<rparr>))"

text \<open>\<open>if self.ground_node_name:\<close> is Python truthiness: neither \<open>None\<close> nor \<open>''\<close>.\<close>

definition truthy :: "string option \<Rightarrow> bool" where
  "truthy v = (case v of None \<Rightarrow> False | Some s \<Rightarrow> s \<noteq> [])"

definition set_ground_node :: "Circuit \<Rightarrow> string \<Rightarrow> error + Circuit" where
  "set_ground_node self nname =
     (if truthy (ground_node_name self)
      then Inl (ValueError ''Ground node has already been set.'')
      else if \<not> dict_contains nname (nodes self)
      then (case declare_node self nname of
              Inl e \<Rightarrow> Inl e
            | Inr self' \<Rightarrow> Inr (self'\<lparr>ground_node_name := Some nname\<rparr>))
      else Inr (self\<lparr>ground_node_name := Some nname\<rparr>))"

definition get_node :: "Circuit \<Rightarrow> string \<Rightarrow> error + Node" where
  "get_node self nname =
     (case map_of (nodes self) nname of
        None \<Rightarrow> Inl (ValueError (''Undeclared node '' @ quoted nname
                  @ ''. All nodes must be declared before use.''))
      | Some node \<Rightarrow> Inr node)"

section \<open>parser.py\<close>

definition COMPONENT_SCHEMA :: "(string \<times> (string \<times> string list) list) list" where
  "COMPONENT_SCHEMA =
     [(''resistor'', [(''pins'', [''from'', ''to''])]),
      (''capacitor'', [(''pins'', [''from'', ''to''])]),
      (''inductor'', [(''pins'', [''from'', ''to''])]),
      (''diode'', [(''pins'', [''from'', ''to''])]),
      (''battery'', [(''pins'', [''from'', ''to''])]),
      (''acsource'', [(''pins'', [''from'', ''to''])]),
      (''switch'', [(''pins'', [''from'', ''to''])])]"

definition KNOWN_PROPERTIES :: "string list" where
  "KNOWN_PROPERTIES =
     [''model'', ''tolerance'', ''power'', ''color'', ''state'', ''amplitude'', ''frequency'']"

subsection \<open>The subcircuit block collector\<close>

text \<open>The loop \<open>for pin_def in pin_defs\<close>, appending to \<open>sub_def.interface\<close>.\<close>

fun expose_pin_defs :: "string list \<Rightarrow> string list \<Rightarrow> error + string list" where
  "expose_pin_defs [] iface = Inr iface"
| "expose_pin_defs (pin_def # pin_defs) iface =
     (if CHR ''='' \<in> set pin_def then
        (let public_name = strip (hd (split_on CHR ''='' pin_def)) in
         if public_name = [] then Inl (ValueError ''Invalid expose mapping in subcircuit.'')
         else expose_pin_defs pin_defs (iface @ [public_name]))
      else if pin_def = [] then Inl (ValueError ''Invalid expose pin name.'')
      else expose_pin_defs pin_defs (iface @ [pin_def]))"

text \<open>
  The loop \<open>for line in lines\<close> of \<open>_parse_subcircuit_block\<close>; it returns the interface
  and the body lines.
\<close>

fun block_lines ::
  "string list \<Rightarrow> string list \<Rightarrow> string list \<Rightarrow> error + (string list \<times> string list)" where
  "block_lines [] iface body_lines = Inr (iface, body_lines)"
| "block_lines (l # ls) iface body_lines =
     (let line = strip l in
      if line = [] \<or> startswith line ''#'' then block_lines ls iface body_lines
      else if startswith line ''expose'' then
        (let parts = split_maxsplit1 line in
         if length parts < 2
         then Inl (ValueError
                ''Subcircuit 'expose' line must list pins, e.g. 'expose a,b=c'.'')
         else (case expose_pin_defs (map strip (split_on CHR '','' (parts ! 1))) iface of
                 Inl e \<Rightarrow> Inl e
               | Inr iface' \<Rightarrow> block_lines ls iface' body_lines))
      else block_lines ls iface (body_lines @ [line]))"

definition parse_subcircuit_block :: "string \<Rightarrow> string list \<Rightarrow> Circuit \<Rightarrow> error + Circuit" where
  "parse_subcircuit_block sname ls circuit =
     (case block_lines ls [] [] of
        Inl e \<Rightarrow> Inl e
      | Inr (iface, body_lines) \<Rightarrow>
          if iface = []
          then Inl (ValueError (''Subcircuit '' @ quoted sname
                      @ '' has no 'expose' line defining its interface.''))
          else Inr (circuit\<lparr>subcircuit_definitions :=
                      AList.update sname
                        \<lparr>subcircuit_name = sname, interface = iface,
                         body_text = join [CHR 0x0A] body_lines\<rparr>
                        (subcircuit_definitions circuit)\<rparr>))"

subsection \<open>The component line parser\<close>

definition valid_pins_of :: "string \<Rightarrow> string list" where
  "valid_pins_of comp_type =
     (case map_of COMPONENT_SCHEMA comp_type of
        None \<Rightarrow> []
      | Some entry \<Rightarrow> (case map_of entry ''pins'' of None \<Rightarrow> [] | Some pins \<Rightarrow> pins))"

text \<open>The optional primary value: the third token, unless it has a \<open>=\<close> or is \<open>from\<close>/\<open>to\<close>.\<close>

definition take_primary_value :: "string list \<Rightarrow> string option \<times> string list" where
  "take_primary_value tokens =
     (case tokens of
        [] \<Rightarrow> (None, tokens)
      | t # ts \<Rightarrow>
          if CHR ''='' \<notin> set t \<and> t \<notin> set [''from'', ''to''] then (Some t, ts)
          else (None, tokens))"

text \<open>The loop \<open>while tokens\<close>, which fills the component.\<close>

fun consume_tokens ::
  "string \<Rightarrow> string \<Rightarrow> Circuit \<Rightarrow> Component \<Rightarrow> string list \<Rightarrow> error + Component" where
  "consume_tokens comp_type comp_name circuit component [] = Inr component"
| "consume_tokens comp_type comp_name circuit component (token # tokens) =
     (if token = ''from'' then
        (case tokens of
           from_node_name # next_tok # to_node_name # tokens' \<Rightarrow>
             if from_node_name = [] then Inl (ValueError (CHR 0x27 # ''from' missing node name.''))
             else (case get_node circuit from_node_name of
                     Inl e \<Rightarrow> Inl e
                   | Inr from_node \<Rightarrow>
                       if next_tok \<noteq> ''to''
                       then Inl (ValueError
                              (CHR 0x27 # ''from' clause must be followed by 'to'.''))
                       else if to_node_name = []
                       then Inl (ValueError (CHR 0x27 # ''to' missing node name.''))
                       else (case get_node circuit to_node_name of
                               Inl e \<Rightarrow> Inl e
                             | Inr to_node \<Rightarrow>
                                 consume_tokens comp_type comp_name circuit
                                   (add_connection (add_connection component ''from'' from_node)
                                      ''to'' to_node)
                                   tokens'))
         | _ \<Rightarrow>
             Inl (ValueError (''Malformed component '' @ quoted comp_name @ '': ''
                    @ quoted ''from'' @ '' must be followed by '' @ quoted ''<node> to <node>'')))
      else if CHR ''='' \<in> set token then
        (case split_once CHR ''='' token of
           (key, val) \<Rightarrow>
             if key = [] then Inl (ValueError (''Invalid key in token '' @ quoted token @ ''.''))
             else if val = []
             then Inl (ValueError (''Invalid value in token '' @ quoted token @ ''.''))
             else if key \<in> set (valid_pins_of comp_type) then
               (case get_node circuit val of
                  Inl e \<Rightarrow> Inl e
                | Inr node \<Rightarrow>
                    consume_tokens comp_type comp_name circuit
                      (add_connection component key node) tokens)
             else if key \<in> set KNOWN_PROPERTIES then
               consume_tokens comp_type comp_name circuit (add_property component key val) tokens
             else Inl (ValueError (''Invalid pin or property '' @ quoted key
                         @ '' for component type '' @ quoted comp_type)))
      else Inl (ValueError (''Unexpected token '' @ quoted token @ '' in component ''
                  @ quoted comp_name @ ''.'')))"

text \<open>
  The shorted component check: more than one connected pin, and one identity among the
  connected nodes.
\<close>

definition is_shorted :: "Component \<Rightarrow> bool" where
  "is_shorted component =
     (let con_nodes = dict_values (connections component) in
      length con_nodes > 1 \<and> card (set (map node_ident con_nodes)) = 1)"

definition shorted_error :: "Component \<Rightarrow> error" where
  "shorted_error component =
     ValueError (''Component '' @ quoted (component_name component)
       @ '' is shorted (all pins connect to the same node)'')"

text \<open>The end of \<open>_parse_component_line\<close>, after the loop.\<close>

definition check_and_add :: "Circuit \<Rightarrow> Component \<Rightarrow> error + Circuit" where
  "check_and_add circuit component =
     (if is_shorted component then Inl (shorted_error component)
      else add_component circuit component)"

text \<open>The part of \<open>_parse_component_line\<close> that builds the component from the tokens.\<close>

definition component_of_tokens :: "string list \<Rightarrow> Circuit \<Rightarrow> error + Component" where
  "component_of_tokens tokens circuit =
     (case tokens of
        t0 # comp_name # tokens1 \<Rightarrow>
          (let comp_type = lower t0 in
           case take_primary_value tokens1 of
             (pvalue, tokens2) \<Rightarrow>
               consume_tokens comp_type comp_name circuit
                 (new_Component comp_type comp_name pvalue) tokens2)
      | _ \<Rightarrow> Inl (ValueError ''Component line must include at least a type and a name.''))"

definition parse_component_line :: "string \<Rightarrow> Circuit \<Rightarrow> error + Circuit" where
  "parse_component_line line circuit =
     (case shlex_split line of
        Inl e \<Rightarrow> Inl e
      | Inr tokens \<Rightarrow>
          (case component_of_tokens tokens circuit of
             Inl e \<Rightarrow> Inl e
           | Inr component \<Rightarrow> check_and_add circuit component))"

subsection \<open>The document parser\<close>

text \<open>The local variables of \<open>Parser.parse\<close> that live across the lines.\<close>

record parser_state =
  circuit_of :: Circuit
  in_subcircuit_block :: bool
  current_subcircuit_name :: "string option"
  subcircuit_lines :: "string list"

definition initial_state :: parser_state where
  "initial_state =
     \<lparr>circuit_of = new_Circuit, in_subcircuit_block = False,
      current_subcircuit_name = None, subcircuit_lines = []\<rparr>"

text \<open>
  \<open>current_subcircuit_name\<close> is a string whenever \<open>in_subcircuit_block\<close> is true
  (lemma \<open>reachable_block_name\<close>); Python would format \<open>None\<close> as \<open>None\<close>.
\<close>

definition name_text :: "string option \<Rightarrow> string" where
  "name_text n = (case n of None \<Rightarrow> ''None'' | Some s \<Rightarrow> s)"

text \<open>The loop \<open>for name in node_names\<close> of the \<open>node\<close> command.\<close>

fun declare_nodes :: "Circuit \<Rightarrow> string list \<Rightarrow> error + Circuit" where
  "declare_nodes circuit [] = Inr circuit"
| "declare_nodes circuit (n # node_names) =
     (let nname = strip n in
      if nname = [] then declare_nodes circuit node_names
      else (case declare_node circuit nname of
              Inl e \<Rightarrow> Inl e
            | Inr circuit' \<Rightarrow> declare_nodes circuit' node_names))"

text \<open>The commands of a regular line, after the tokens were taken.\<close>

definition run_command :: "Circuit \<Rightarrow> string \<Rightarrow> string list \<Rightarrow> error + Circuit" where
  "run_command circuit line tokens =
     (let command = lower (hd tokens) in
      if command = ''node'' then
        (if length tokens < 2
         then Inl (ValueError
                (CHR 0x27 # ''node' requires a comma-separated list of node names.''))
         else declare_nodes circuit (split_on CHR '','' (join '' '' (tl tokens))))
      else if command = ''ground'' then
        (if length tokens \<noteq> 2
         then Inl (ValueError
                (CHR 0x27 # ''ground' declaration must have exactly one node name.''))
         else set_ground_node circuit (tokens ! 1))
      else if dict_contains command COMPONENT_SCHEMA
              \<or> dict_contains command (subcircuit_definitions circuit)
      then parse_component_line line circuit
      else Inl (ValueError (''Unknown command or component type '' @ quoted command)))"

text \<open>The body of the \<open>try\<close> for one line, which has been stripped.\<close>

definition process_line :: "parser_state \<Rightarrow> string \<Rightarrow> error + parser_state" where
  "process_line st line =
     (if startswith line ''[/subcircuit]'' then
        (if \<not> in_subcircuit_block st
         then Inl (ValueError ''Found end of block '[/subcircuit]' without a start.'')
         else (case parse_subcircuit_block (name_text (current_subcircuit_name st))
                      (subcircuit_lines st) (circuit_of st) of
                 Inl e \<Rightarrow> Inl e
               | Inr circuit' \<Rightarrow>
                   Inr \<lparr>circuit_of = circuit', in_subcircuit_block = False,
                        current_subcircuit_name = None, subcircuit_lines = []\<rparr>))
      else if startswith line ''[subcircuit'' then
        (if in_subcircuit_block st then Inl (ValueError ''Cannot nest subcircuits.'')
         else (let parts = split_maxsplit1 line in
               if length parts < 2
               then Inl (ValueError
                      ''Subcircuit declaration must include a name, e.g. [subcircuit NAME].'')
               else Inr (st\<lparr>in_subcircuit_block := True,
                            current_subcircuit_name := Some (strip_chars '' ]'' (parts ! 1)),
                            subcircuit_lines := []\<rparr>)))
      else if in_subcircuit_block st then
        Inr (st\<lparr>subcircuit_lines := subcircuit_lines st @ [line]\<rparr>)
      else if line = [] \<or> startswith line ''#'' then Inr st
      else (case shlex_split line of
              Inl e \<Rightarrow> Inl e
            | Inr tokens \<Rightarrow>
                if tokens = [] then Inr st
                else (case run_command (circuit_of st) line tokens of
                        Inl e \<Rightarrow> Inl e
                      | Inr circuit' \<Rightarrow> Inr (st\<lparr>circuit_of := circuit'\<rparr>))))"

text \<open>The \<open>except\<close> clause: the error is raised again behind the line number.\<close>

definition wrap_error :: "nat \<Rightarrow> error \<Rightarrow> error" where
  "wrap_error line_num e =
     (case e of ValueError msg \<Rightarrow> ValueError (''On line '' @ str_nat line_num @ '': '' @ msg))"

text \<open>The loop \<open>for line_num, line in enumerate(lines, 1)\<close>.\<close>

fun parse_lines :: "parser_state \<Rightarrow> nat \<Rightarrow> string list \<Rightarrow> error + parser_state" where
  "parse_lines st line_num [] = Inr st"
| "parse_lines st line_num (l # ls) =
     (case process_line st (strip l) of
        Inl e \<Rightarrow> Inl (wrap_error line_num e)
      | Inr st' \<Rightarrow> parse_lines st' (Suc line_num) ls)"

definition document_lines :: "string \<Rightarrow> string list" where
  "document_lines text = split_on CHR 0x0A (strip text)"

definition unclosed_error :: "parser_state \<Rightarrow> error" where
  "unclosed_error st =
     ValueError (''Subcircuit '' @ quoted (name_text (current_subcircuit_name st))
       @ '' not closed with [/subcircuit].'')"

definition parse :: "string \<Rightarrow> error + Circuit" where
  "parse text =
     (case parse_lines initial_state 1 (document_lines text) of
        Inl e \<Rightarrow> Inl e
      | Inr st \<Rightarrow>
          if in_subcircuit_block st then Inl (unclosed_error st)
          else Inr (circuit_of st))"

subsection \<open>Auxiliary notions for the statements\<close>

text \<open>
  The lines of a block that end up in the body: stripped, and neither blank nor a
  comment.
\<close>

definition body_of :: "string list \<Rightarrow> string list" where
  "body_of ls = filter (\<lambda>l. l \<noteq> [] \<and> \<not> startswith l ''#'') (map strip ls)"

text \<open>
  The name a pin definition of an \<open>expose\<close> line puts into the interface, in the words
  of the specification: a bare pin name stands for itself, and of a mapping
  \<open>public=internal\<close> the public name is retained.
\<close>

definition public_name :: "string \<Rightarrow> string" where
  "public_name pin_def =
     (if CHR ''='' \<in> set pin_def then strip (takeWhile (\<lambda>c. c \<noteq> CHR ''='') pin_def)
      else pin_def)"

text \<open>The public names of the comma-separated pin definitions of one \<open>expose\<close> line.\<close>

definition expose_pins :: "string \<Rightarrow> string list" where
  "expose_pins line =
     map public_name (map strip (split_on CHR '','' (split_maxsplit1 line ! 1)))"

text \<open>
  What holds of the nodes of every circuit the parser builds: the identities of the
  registered nodes are pairwise distinct and below the counter, and every node is
  registered under its own name.
\<close>

definition nodes_ok :: "Circuit \<Rightarrow> bool" where
  "nodes_ok c =
     (distinct (map (\<lambda>p. node_ident (snd p)) (nodes c)) \<and>
      (\<forall>p \<in> set (nodes c). node_ident (snd p) < next_ident c \<and> node_name (snd p) = fst p))"

text \<open>
  \<open>extends c c'\<close>: every node and every component registered in \<open>c\<close> is registered
  unchanged in \<open>c'\<close>.
\<close>

definition extends :: "Circuit \<Rightarrow> Circuit \<Rightarrow> bool" where
  "extends c c' =
     ((\<forall>k v. map_of (nodes c) k = Some v \<longrightarrow> map_of (nodes c') k = Some v) \<and>
      (\<forall>k v. map_of (components c) k = Some v \<longrightarrow> map_of (components c') k = Some v))"

section \<open>Blank and comment lines\<close>

lemma split_on_nonempty: "split_on sep s \<noteq> []"
  by (induction s) (auto split: list.splits)

lemma comment_line_not_marker:
  assumes "line = [] \<or> startswith line ''#''"
  shows "\<not> startswith line ''[/subcircuit]''" and "\<not> startswith line ''[subcircuit''"
  using assms by (cases line; simp add: startswith_def)+

lemma process_line_skip:
  assumes "\<not> in_subcircuit_block st" and "line = [] \<or> startswith line ''#''"
  shows "process_line st line = Inr st"
  using assms comment_line_not_marker[OF assms(2)]
  by (simp add: process_line_def)

lemma parse_lines_skip:
  assumes "\<not> in_subcircuit_block st"
    and "\<forall>l \<in> set ls. strip l = [] \<or> startswith (strip l) ''#''"
  shows "parse_lines st n ls = Inr st"
  using assms
  by (induction ls arbitrary: n) (simp_all add: process_line_skip)

text \<open>
  C10. Parsing the empty string succeeds, and so does parsing any document whose lines
  are all blank or comments (a \<open>#\<close> first, once the line is stripped); the circuit
  returned is the one \<open>Circuit()\<close> builds: no components, no nodes, no subcircuit
  definitions and no ground node.
\<close>

theorem C10_blank_document:
  "parse [] = Inr new_Circuit \<and>
   ((\<forall>l \<in> set (document_lines text). strip l = [] \<or> startswith (strip l) ''#'')
      \<longrightarrow> parse text = Inr new_Circuit) \<and>
   components new_Circuit = [] \<and> nodes new_Circuit = [] \<and>
   subcircuit_definitions new_Circuit = [] \<and> ground_node_name new_Circuit = None"
proof -
  have init: "\<not> in_subcircuit_block initial_state" "circuit_of initial_state = new_Circuit"
    by (simp_all add: initial_state_def)
  have blank: "parse t = Inr new_Circuit"
    if "\<forall>l \<in> set (document_lines t). strip l = [] \<or> startswith (strip l) ''#''" for t
    using parse_lines_skip[OF init(1) that, of 1] init by (simp add: parse_def)
  have "document_lines [] = [[]]"
    by (simp add: document_lines_def strip_def strip_chars_def)
  then have "parse [] = Inr new_Circuit"
    using blank[of "[]"] by (simp add: strip_def strip_chars_def)
  then show ?thesis using blank by (simp add: new_Circuit_def)
qed

theorem C10_blank_document_witness:
  "parse '' # c\<newline>\<newline> # d'' = Inr new_Circuit"
proof -
  have h: "\<forall>l \<in> set (document_lines '' # c\<newline>\<newline> # d'').
      strip l = [] \<or> startswith (strip l) ''#''"
    by code_simp
  show ?thesis using h C10_blank_document[of "'' # c\<newline>\<newline> # d''"] by blast
qed

section \<open>The subcircuit block collector\<close>

lemma block_lines_append:
  "block_lines (xs @ ys) iface body =
     (case block_lines xs iface body of
        Inl e \<Rightarrow> Inl e
      | Inr (iface', body') \<Rightarrow> block_lines ys iface' body')"
  by (induction xs arbitrary: iface body) (auto simp: Let_def split: sum.splits)

lemma block_lines_no_expose:
  assumes "\<forall>l \<in> set ls. \<not> startswith (strip l) ''expose''"
  shows "block_lines ls iface body = Inr (iface, body @ body_of ls)"
  using assms
  by (induction ls arbitrary: body) (auto simp: Let_def body_of_def)

lemma block_lines_expose_a_b:
  assumes "strip l = ''expose a,b''"
  shows "block_lines [l] iface body = Inr (iface @ [''a'', ''b''], body)"
proof -
  have 1: "startswith ''expose a,b'' ''expose''" "\<not> startswith ''expose a,b'' ''#''"
    by (simp_all add: startswith_def)
  have 2: "split_maxsplit1 ''expose a,b'' = [''expose'', ''a,b'']"
    by code_simp
  have 3: "map strip (split_on CHR '','' ''a,b'') = [''a'', ''b'']"
    by code_simp
  show ?thesis using assms 1 2 3 by (simp add: Let_def)
qed

lemma block_lines_expose_pub:
  assumes "strip l = ''expose pub=internal''"
  shows "block_lines [l] iface body = Inr (iface @ [''pub''], body)"
proof -
  have 1: "startswith ''expose pub=internal'' ''expose''"
    "\<not> startswith ''expose pub=internal'' ''#''"
    by (simp_all add: startswith_def)
  have 2: "split_maxsplit1 ''expose pub=internal'' = [''expose'', ''pub=internal'']"
    by code_simp
  have 3: "map strip (split_on CHR '','' ''pub=internal'') = [''pub=internal'']"
    by code_simp
  have 4: "strip (hd (split_on CHR ''='' ''pub=internal'')) = ''pub''"
    by code_simp
  show ?thesis using assms 1 2 3 4 by (simp add: Let_def)
qed

lemma block_lines_Cons:
  "block_lines (l # ls) iface body =
     (case block_lines [l] iface body of
        Inl e \<Rightarrow> Inl e
      | Inr (iface', body') \<Rightarrow> block_lines ls iface' body')"
  using block_lines_append[of "[l]" ls iface body] by (simp del: block_lines.simps)

lemma block_lines_one_expose:
  assumes "\<forall>l \<in> set (pre @ post). \<not> startswith (strip l) ''expose''"
    and "\<And>iface body. block_lines [l] iface body = Inr (iface @ pins, body)"
  shows "block_lines (pre @ [l] @ post) [] [] = Inr (pins, body_of pre @ body_of post)"
proof -
  have 1: "block_lines pre [] [] = Inr ([], body_of pre)"
    using assms(1) block_lines_no_expose[of pre "[]" "[]"] by simp
  have 2: "block_lines post pins (body_of pre) = Inr (pins, body_of pre @ body_of post)"
    using assms(1) block_lines_no_expose[of post pins "body_of pre"] by simp
  have 3: "block_lines [l] [] (body_of pre) = Inr (pins, body_of pre)"
    using assms(2)[of "[]" "body_of pre"] by simp
  have "block_lines (l # post) [] (body_of pre) = Inr (pins, body_of pre @ body_of post)"
    by (subst block_lines_Cons) (simp only: 2 3 sum.case prod.case)
  then show ?thesis
    by (simp add: block_lines_append 1 del: block_lines.simps)
qed

text \<open>
  Within blocks whose other lines do not start with \<open>expose\<close>: without such a line
  the block fails; the line \<open>expose a,b\<close> gives the interface \<open>["a", "b"]\<close>, and the
  line \<open>expose pub=internal\<close> gives \<open>["pub"]\<close>.
\<close>

lemma expose_interface_examples:
  "((\<forall>l \<in> set ls. \<not> startswith (strip l) ''expose'') \<longrightarrow>
      parse_subcircuit_block sname ls circuit =
        Inl (ValueError (''Subcircuit '' @ quoted sname
               @ '' has no 'expose' line defining its interface.''))) \<and>
   ((\<forall>l \<in> set (pre @ post). \<not> startswith (strip l) ''expose'') \<and> strip l1 = ''expose a,b'' \<longrightarrow>
      (\<exists>circuit' d. parse_subcircuit_block sname (pre @ [l1] @ post) circuit = Inr circuit'
         \<and> map_of (subcircuit_definitions circuit') sname = Some d
         \<and> subcircuit_name d = sname \<and> interface d = [''a'', ''b''])) \<and>
   ((\<forall>l \<in> set (pre @ post). \<not> startswith (strip l) ''expose'')
      \<and> strip l2 = ''expose pub=internal'' \<longrightarrow>
      (\<exists>circuit' d. parse_subcircuit_block sname (pre @ [l2] @ post) circuit = Inr circuit'
         \<and> map_of (subcircuit_definitions circuit') sname = Some d
         \<and> subcircuit_name d = sname \<and> interface d = [''pub'']))"
proof (intro conjI impI)
  assume "\<forall>l \<in> set ls. \<not> startswith (strip l) ''expose''"
  then show "parse_subcircuit_block sname ls circuit =
        Inl (ValueError (''Subcircuit '' @ quoted sname
               @ '' has no 'expose' line defining its interface.''))"
    by (simp add: parse_subcircuit_block_def block_lines_no_expose)
next
  assume a: "(\<forall>l \<in> set (pre @ post). \<not> startswith (strip l) ''expose'')
    \<and> strip l1 = ''expose a,b''"
  then have "block_lines (pre @ [l1] @ post) [] [] = Inr ([''a'', ''b''], body_of pre @ body_of post)"
    using block_lines_one_expose[of pre post l1 "[''a'', ''b'']"] block_lines_expose_a_b[of l1]
    by blast
  then show "\<exists>circuit' d. parse_subcircuit_block sname (pre @ [l1] @ post) circuit = Inr circuit'
         \<and> map_of (subcircuit_definitions circuit') sname = Some d
         \<and> subcircuit_name d = sname \<and> interface d = [''a'', ''b'']"
    by (simp add: parse_subcircuit_block_def AList.update_conv')
next
  assume a: "(\<forall>l \<in> set (pre @ post). \<not> startswith (strip l) ''expose'')
    \<and> strip l2 = ''expose pub=internal''"
  then have "block_lines (pre @ [l2] @ post) [] [] = Inr ([''pub''], body_of pre @ body_of post)"
    using block_lines_one_expose[of pre post l2 "[''pub'']"] block_lines_expose_pub[of l2]
    by blast
  then show "\<exists>circuit' d. parse_subcircuit_block sname (pre @ [l2] @ post) circuit = Inr circuit'
         \<and> map_of (subcircuit_definitions circuit') sname = Some d
         \<and> subcircuit_name d = sname \<and> interface d = [''pub'']"
    by (simp add: parse_subcircuit_block_def AList.update_conv')
qed

lemma hd_split_on: "hd (split_on sep s) = takeWhile (\<lambda>c. c \<noteq> sep) s"
proof (induction s)
  case Nil
  then show ?case by simp
next
  case (Cons c cs)
  then show ?case
    using split_on_nonempty[of sep cs] by (cases "split_on sep cs") auto
qed

lemma expose_pin_defs_public_names:
  assumes "[] \<notin> set (map public_name pin_defs)"
  shows "expose_pin_defs pin_defs iface = Inr (iface @ map public_name pin_defs)"
  using assms
  by (induction pin_defs arbitrary: iface) (auto simp: public_name_def hd_split_on Let_def)

lemma expose_pin_defs_empty_name:
  assumes "[] \<in> set (map public_name pin_defs)"
  shows "\<exists>e. expose_pin_defs pin_defs iface = Inl e"
  using assms
  by (induction pin_defs arbitrary: iface) (auto simp: public_name_def hd_split_on Let_def)

lemma comment_not_expose: "startswith line ''#'' \<Longrightarrow> \<not> startswith line ''expose''"
  by (cases line) (simp_all add: startswith_def)

lemma blank_not_expose: "\<not> startswith [] ''expose''"
  by (simp add: startswith_def)

text \<open>
  What the loop computes, for every block whose lines starting with \<open>expose\<close> have an
  argument and no empty public name: the interface lists the public names of their pin
  definitions in the order encountered, and the other lines that are neither blank nor
  comments form the body.
\<close>

lemma block_lines_interface:
  assumes "\<forall>l \<in> set ls. startswith (strip l) ''expose'' \<longrightarrow>
             length (split_maxsplit1 (strip l)) = 2 \<and> [] \<notin> set (expose_pins (strip l))"
  shows "block_lines ls iface body =
           Inr (iface @ concat (map expose_pins
                                  (filter (\<lambda>l. startswith l ''expose'') (map strip ls))),
                body @ filter (\<lambda>l. \<not> startswith l ''expose'') (body_of ls))"
  using assms
proof (induction ls arbitrary: iface body)
  case Nil
  then show ?case by (simp add: body_of_def)
next
  case (Cons l ls)
  from Cons.prems have rest: "\<forall>l \<in> set ls. startswith (strip l) ''expose'' \<longrightarrow>
             length (split_maxsplit1 (strip l)) = 2 \<and> [] \<notin> set (expose_pins (strip l))"
    by simp
  note IH = Cons.IH[OF rest]
  show ?case
  proof (cases "strip l = [] \<or> startswith (strip l) ''#''")
    case True
    then have "\<not> startswith (strip l) ''expose''"
      using comment_not_expose blank_not_expose by auto
    with True show ?thesis
      by (simp add: IH body_of_def)
  next
    case False
    show ?thesis
    proof (cases "startswith (strip l) ''expose''")
      case True
      with Cons.prems have 2: "length (split_maxsplit1 (strip l)) = 2"
        and ne: "[] \<notin> set (expose_pins (strip l))"
        by simp_all
      from ne have "expose_pin_defs (map strip (split_on CHR '','' (split_maxsplit1 (strip l) ! 1))) iface
            = Inr (iface @ expose_pins (strip l))"
        unfolding expose_pins_def by (rule expose_pin_defs_public_names)
      with False True 2 show ?thesis
        by (simp add: IH body_of_def)
    next
      case ne: False
      with False show ?thesis
        by (simp add: IH body_of_def)
    qed
  qed
qed

text \<open>
  C6. A line of a block is taken as an \<open>expose\<close> line when it starts with the six
  letters \<open>expose\<close>, whatever follows them. The block whose only line is
  \<open>exposed x\<close> has no \<open>expose\<close> line, and it is accepted with the interface
  \<open>["x"]\<close>; in a block with the lines \<open>expose a,b\<close> and \<open>exposed_pad p1 a b\<close> the
  second line adds a third entry to the interface.
\<close>

theorem C6_exposed_line_taken_as_expose:
  "parse ''[subcircuit s]\<newline>exposed x\<newline>[/subcircuit]'' =
     Inr \<lparr>components = [], nodes = [],
          subcircuit_definitions =
            [(''s'', \<lparr>subcircuit_name = ''s'', interface = [''x''], body_text = []\<rparr>)],
          ground_node_name = None, next_ident = 0\<rparr>
   \<and> parse ''[subcircuit s]\<newline>expose a,b\<newline>exposed_pad p1 a b\<newline>[/subcircuit]'' =
     Inr \<lparr>components = [], nodes = [],
          subcircuit_definitions =
            [(''s'', \<lparr>subcircuit_name = ''s'', interface = [''a'', ''b'', ''p1 a b''],
                      body_text = []\<rparr>)],
          ground_node_name = None, next_ident = 0\<rparr>"
  by code_simp

section \<open>The shorted component check\<close>

lemma card_set_one_iff:
  "card (set xs) = 1 \<longleftrightarrow> xs \<noteq> [] \<and> (\<forall>x \<in> set xs. \<forall>y \<in> set xs. x = y)"
proof
  assume "card (set xs) = 1"
  then obtain a where "set xs = {a}" by (auto simp: card_1_singleton_iff)
  then show "xs \<noteq> [] \<and> (\<forall>x \<in> set xs. \<forall>y \<in> set xs. x = y)" by auto
next
  assume a: "xs \<noteq> [] \<and> (\<forall>x \<in> set xs. \<forall>y \<in> set xs. x = y)"
  then obtain x where "x \<in> set xs" by (cases xs) auto
  with a have "set xs = {x}" by auto
  then show "card (set xs) = 1" by simp
qed

lemma is_shorted_iff:
  "is_shorted component \<longleftrightarrow>
     1 < length (connections component) \<and>
     (\<forall>p \<in> set (connections component). \<forall>q \<in> set (connections component).
        node_ident (snd p) = node_ident (snd q))"
proof -
  let ?ids = "map node_ident (map snd (connections component))"
  have "(\<forall>x \<in> set ?ids. \<forall>y \<in> set ?ids. x = y) \<longleftrightarrow>
        (\<forall>p \<in> set (connections component). \<forall>q \<in> set (connections component).
           node_ident (snd p) = node_ident (snd q))"
    by simp
  moreover have "1 < length (connections component) \<Longrightarrow> ?ids \<noteq> []"
    by auto
  ultimately show ?thesis
    unfolding is_shorted_def dict_values_def Let_def card_set_one_iff
    by (metis length_map)
qed

lemma add_component_not_shorted_error:
  "add_component circuit component \<noteq> Inl (shorted_error component')"
  by (simp add: add_component_def shorted_error_def quoted_def)

text \<open>
  C3. Once the tokens of a component line are consumed, the line fails with the shorted
  error exactly when the component has more than one connected pin and all connected
  nodes have one identity. Only \<open>id\<close> is compared, never the name: a component with two
  connected nodes of distinct identity goes on to \<open>add_component\<close> and never gets the
  shorted error.
\<close>

theorem C3_shorted_by_identity:
  assumes "shlex_split line = Inr tokens"
    and "component_of_tokens tokens circuit = Inr component"
  shows "((parse_component_line line circuit = Inl (shorted_error component)) =
           (1 < length (connections component) \<and>
            (\<forall>p \<in> set (connections component). \<forall>q \<in> set (connections component).
               node_ident (snd p) = node_ident (snd q)))) \<and>
         ((\<exists>p \<in> set (connections component). \<exists>q \<in> set (connections component).
            node_ident (snd p) \<noteq> node_ident (snd q))
          \<longrightarrow> parse_component_line line circuit = add_component circuit component
              \<and> parse_component_line line circuit \<noteq> Inl (shorted_error component))"
proof -
  have eq: "parse_component_line line circuit = check_and_add circuit component"
    using assms by (simp add: parse_component_line_def)
  have iff: "(parse_component_line line circuit = Inl (shorted_error component)) =
           (1 < length (connections component) \<and>
            (\<forall>p \<in> set (connections component). \<forall>q \<in> set (connections component).
               node_ident (snd p) = node_ident (snd q)))"
    unfolding eq check_and_add_def is_shorted_iff[symmetric]
    by (simp add: add_component_not_shorted_error)
  have distinct: "parse_component_line line circuit = add_component circuit component
      \<and> parse_component_line line circuit \<noteq> Inl (shorted_error component)"
    if "\<exists>p \<in> set (connections component). \<exists>q \<in> set (connections component).
            node_ident (snd p) \<noteq> node_ident (snd q)"
  proof -
    from that have "\<not> is_shorted component"
      unfolding is_shorted_iff by blast
    then show ?thesis
      by (simp add: eq check_and_add_def add_component_not_shorted_error)
  qed
  from iff distinct show ?thesis by blast
qed

theorem C3_shorted_by_identity_witness:
  "parse_component_line ''resistor R1 from n1 to n1''
     (new_Circuit\<lparr>nodes :=
        [(''n1'', \<lparr>node_ident = 0, node_name = ''n''\<rparr>),
         (''n2'', \<lparr>node_ident = 1, node_name = ''n''\<rparr>)], next_ident := 2\<rparr>)
     = Inl (ValueError ''Component 'R1' is shorted (all pins connect to the same node)'')
   \<and> parse_component_line ''resistor R1 from n1 to n2''
     (new_Circuit\<lparr>nodes :=
        [(''n1'', \<lparr>node_ident = 0, node_name = ''n''\<rparr>),
         (''n2'', \<lparr>node_ident = 1, node_name = ''n''\<rparr>)], next_ident := 2\<rparr>)
     \<noteq> Inl (ValueError ''Component 'R1' is shorted (all pins connect to the same node)'')"
proof -
  let ?c = "new_Circuit\<lparr>nodes :=
        [(''n1'', \<lparr>node_ident = 0, node_name = ''n''\<rparr>),
         (''n2'', \<lparr>node_ident = 1, node_name = ''n''\<rparr>)], next_ident := 2\<rparr>"
  let ?a = "\<lparr>node_ident = 0, node_name = ''n''\<rparr>"
  let ?b = "\<lparr>node_ident = 1, node_name = ''n''\<rparr>"
  let ?k1 = "\<lparr>component_type = ''resistor'', component_name = ''R1'', primary_value = None,
              properties = [], connections = [(''from'', ?a), (''to'', ?a)]\<rparr>"
  let ?k2 = "\<lparr>component_type = ''resistor'', component_name = ''R1'', primary_value = None,
              properties = [], connections = [(''from'', ?a), (''to'', ?b)]\<rparr>"
  have t1: "shlex_split ''resistor R1 from n1 to n1''
              = Inr [''resistor'', ''R1'', ''from'', ''n1'', ''to'', ''n1'']"
    by code_simp
  have t2: "shlex_split ''resistor R1 from n1 to n2''
              = Inr [''resistor'', ''R1'', ''from'', ''n1'', ''to'', ''n2'']"
    by code_simp
  have k1: "component_of_tokens [''resistor'', ''R1'', ''from'', ''n1'', ''to'', ''n1''] ?c
              = Inr ?k1"
    by code_simp
  have k2: "component_of_tokens [''resistor'', ''R1'', ''from'', ''n1'', ''to'', ''n2''] ?c
              = Inr ?k2"
    by code_simp
  have e: "shorted_error ?k1
      = ValueError ''Component 'R1' is shorted (all pins connect to the same node)''"
    "shorted_error ?k2
      = ValueError ''Component 'R1' is shorted (all pins connect to the same node)''"
    by (simp_all add: shorted_error_def quoted_def)
  have s1: "1 < length (connections ?k1) \<and>
            (\<forall>p \<in> set (connections ?k1). \<forall>q \<in> set (connections ?k1).
               node_ident (snd p) = node_ident (snd q))"
    by simp
  have s2: "\<exists>p \<in> set (connections ?k2). \<exists>q \<in> set (connections ?k2).
            node_ident (snd p) \<noteq> node_ident (snd q)"
    by simp
  have r1: "parse_component_line ''resistor R1 from n1 to n1'' ?c = Inl (shorted_error ?k1)"
    using C3_shorted_by_identity[OF t1 k1] s1 by blast
  have r2: "parse_component_line ''resistor R1 from n1 to n2'' ?c \<noteq> Inl (shorted_error ?k2)"
    using C3_shorted_by_identity[OF t2 k2] s2 by blast
  show ?thesis using r1 r2 unfolding e by (rule conjI)
qed

section \<open>Errors and line numbers\<close>

lemma parse_lines_append:
  "parse_lines st k (xs @ ys) =
     (case parse_lines st k xs of
        Inl e \<Rightarrow> Inl e
      | Inr st' \<Rightarrow> parse_lines st' (k + length xs) ys)"
  by (induction xs arbitrary: st k) (auto split: sum.splits)

lemma parse_lines_error:
  assumes "parse_lines st k ls = Inl e"
  shows "\<exists>i st' msg. i < length ls \<and> parse_lines st k (take i ls) = Inr st'
           \<and> process_line st' (strip (ls ! i)) = Inl (ValueError msg)
           \<and> e = ValueError (''On line '' @ str_nat (k + i) @ '': '' @ msg)"
  using assms
proof (induction ls arbitrary: st k)
  case Nil
  then show ?case by simp
next
  case (Cons l ls)
  show ?case
  proof (cases "process_line st (strip l)")
    case (Inl e0)
    obtain msg where e0: "e0 = ValueError msg" by (cases e0)
    from Cons.prems Inl e0 have "e = ValueError (''On line '' @ str_nat k @ '': '' @ msg)"
      by (simp add: wrap_error_def)
    with Inl e0 have "0 < length (l # ls) \<and> parse_lines st k (take 0 (l # ls)) = Inr st
           \<and> process_line st (strip ((l # ls) ! 0)) = Inl (ValueError msg)
           \<and> e = ValueError (''On line '' @ str_nat (k + 0) @ '': '' @ msg)"
      by simp
    then show ?thesis by blast
  next
    case (Inr st1)
    with Cons.prems have "parse_lines st1 (Suc k) ls = Inl e" by simp
    from Cons.IH[OF this] obtain i st' msg where
      i: "i < length ls" "parse_lines st1 (Suc k) (take i ls) = Inr st'"
         "process_line st' (strip (ls ! i)) = Inl (ValueError msg)"
         "e = ValueError (''On line '' @ str_nat (Suc k + i) @ '': '' @ msg)"
      by blast
    with Inr have "Suc i < length (l # ls) \<and> parse_lines st k (take (Suc i) (l # ls)) = Inr st'
           \<and> process_line st' (strip ((l # ls) ! Suc i)) = Inl (ValueError msg)
           \<and> e = ValueError (''On line '' @ str_nat (k + Suc i) @ '': '' @ msg)"
      by simp
    then show ?thesis by blast
  qed
qed

lemma process_line_block_name:
  assumes "process_line st line = Inr st'"
    and "in_subcircuit_block st \<longrightarrow> current_subcircuit_name st \<noteq> None"
  shows "in_subcircuit_block st' \<longrightarrow> current_subcircuit_name st' \<noteq> None"
  using assms
  by (auto simp: process_line_def Let_def split: if_splits sum.splits)

lemma parse_lines_block_name:
  assumes "parse_lines st k ls = Inr st'"
    and "in_subcircuit_block st \<longrightarrow> current_subcircuit_name st \<noteq> None"
  shows "in_subcircuit_block st' \<longrightarrow> current_subcircuit_name st' \<noteq> None"
  using assms
proof (induction ls arbitrary: st k)
  case Nil
  then show ?case by simp
next
  case (Cons l ls)
  then show ?case
    by (cases "process_line st (strip l)") (auto dest: process_line_block_name)
qed

lemma reachable_block_name:
  assumes "parse_lines initial_state k ls = Inr st" and "in_subcircuit_block st"
  shows "\<exists>s. current_subcircuit_name st = Some s"
  using parse_lines_block_name[OF assms(1)] assms(2) by (simp add: initial_state_def)

text \<open>
  C5 (as amended). When parsing fails, either the failure was raised while a line was
  processed, and then the error delivered is \<open>On line N: \<close> followed by the message of
  that failure unchanged, where \<open>N\<close> is the 1-based number of that line among the
  lines of the stripped document and all earlier lines were processed without error; or
  every line was processed and the document ends inside a subcircuit block, and then the
  error is the unclosed-block message as it is, with no line number in front.
\<close>

theorem C5_line_prefix:
  assumes "parse text = Inl e"
  shows "(\<exists>n st msg. 1 \<le> n \<and> n \<le> length (document_lines text)
            \<and> parse_lines initial_state 1 (take (n - 1) (document_lines text)) = Inr st
            \<and> process_line st (strip (document_lines text ! (n - 1))) = Inl (ValueError msg)
            \<and> e = ValueError (''On line '' @ str_nat n @ '': '' @ msg))
         \<or> (\<exists>st s. parse_lines initial_state 1 (document_lines text) = Inr st
            \<and> in_subcircuit_block st \<and> current_subcircuit_name st = Some s
            \<and> e = ValueError (''Subcircuit '' @ quoted s @ '' not closed with [/subcircuit].''))"
proof (cases "parse_lines initial_state 1 (document_lines text)")
  case (Inl e')
  with assms have "e' = e" by (simp add: parse_def)
  with Inl parse_lines_error[of initial_state 1 "document_lines text" e]
  obtain i st' msg where i: "i < length (document_lines text)"
      "parse_lines initial_state 1 (take i (document_lines text)) = Inr st'"
      "process_line st' (strip (document_lines text ! i)) = Inl (ValueError msg)"
      "e = ValueError (''On line '' @ str_nat (1 + i) @ '': '' @ msg)"
    by blast
  then have "1 \<le> Suc i \<and> Suc i \<le> length (document_lines text)
            \<and> parse_lines initial_state 1 (take (Suc i - 1) (document_lines text)) = Inr st'
            \<and> process_line st' (strip (document_lines text ! (Suc i - 1))) = Inl (ValueError msg)
            \<and> e = ValueError (''On line '' @ str_nat (Suc i) @ '': '' @ msg)"
    by simp
  then show ?thesis by blast
next
  case (Inr st)
  with assms have b: "in_subcircuit_block st" and e: "e = unclosed_error st"
    by (auto simp: parse_def split: if_splits)
  from reachable_block_name[OF Inr b] obtain s where s: "current_subcircuit_name st = Some s"
    by blast
  with e have "e = ValueError (''Subcircuit '' @ quoted s @ '' not closed with [/subcircuit].'')"
    by (simp add: unclosed_error_def name_text_def)
  with Inr b s show ?thesis by blast
qed

theorem C5_line_prefix_witness:
  "(\<exists>n st msg. 1 \<le> n \<and> n \<le> length (document_lines ''ground a\<newline>ground b'')
       \<and> parse_lines initial_state 1 (take (n - 1) (document_lines ''ground a\<newline>ground b''))
           = Inr st
       \<and> process_line st (strip (document_lines ''ground a\<newline>ground b'' ! (n - 1)))
           = Inl (ValueError msg)
       \<and> ValueError ''On line 2: Ground node has already been set.''
           = ValueError (''On line '' @ str_nat n @ '': '' @ msg))
    \<or> (\<exists>st s. parse_lines initial_state 1 (document_lines ''ground a\<newline>ground b'') = Inr st
       \<and> in_subcircuit_block st \<and> current_subcircuit_name st = Some s
       \<and> ValueError ''On line 2: Ground node has already been set.''
           = ValueError (''Subcircuit '' @ quoted s @ '' not closed with [/subcircuit].''))"
proof -
  have h: "parse ''ground a\<newline>ground b''
             = Inl (ValueError ''On line 2: Ground node has already been set.'')"
    by code_simp
  show ?thesis by (rule C5_line_prefix[OF h])
qed

text \<open>
  The claim C5 as stated fails: the unterminated block is reported after the loop, outside
  the \<open>try\<close>, so its message reaches the caller without a line number.
\<close>

theorem C5_unterminated_block_unwrapped:
  "parse ''[subcircuit X]'' =
     Inl (ValueError ''Subcircuit 'X' not closed with [/subcircuit].'')
   \<and> \<not> startswith ''Subcircuit 'X' not closed with [/subcircuit].'' ''On line ''"
  by code_simp

section \<open>Inputs on which the parser departs from its documentation\<close>

lemma set_ground_node_twice:
  "truthy (ground_node_name circuit) \<Longrightarrow>
     set_ground_node circuit nname = Inl (ValueError ''Ground node has already been set.'')"
  by (simp add: set_ground_node_def)

text \<open>
  C4. \<open>set_ground_node\<close> tests \<open>if self.ground_node_name:\<close>, which is false for the
  empty string as well as for \<open>None\<close>. After \<open>ground ""\<close> the ground node is the node
  named \<open>''\<close>, and a second \<open>ground\<close> line is accepted and replaces it.
\<close>

theorem C4_second_ground_accepted:
  \<open>parse ''ground ""\<newline>ground a'' =
     Inr \<lparr>components = [],
          nodes = [([], \<lparr>node_ident = 0, node_name = []\<rparr>),
                   (''a'', \<lparr>node_ident = 1, node_name = ''a''\<rparr>)],
          subcircuit_definitions = [], ground_node_name = Some ''a'', next_ident = 2\<rparr>\<close>
  by code_simp

lemma lowercase_subcircuit_dispatch:
  assumes "dict_contains (lower (hd tokens)) (subcircuit_definitions circuit)"
    and "lower (hd tokens) \<noteq> ''node''" and "lower (hd tokens) \<noteq> ''ground''"
  shows "run_command circuit line tokens = parse_component_line line circuit"
  using assms by (simp add: run_command_def)

text \<open>
  C7. The first token of a line is lowered before it is looked up among the subcircuit
  definitions, whose names are stored as written. A subcircuit named \<open>Amp\<close> is
  registered, and the later line \<open>Amp X1\<close> is rejected as an unknown command.
\<close>

theorem C7_uppercase_subcircuit_rejected:
  "parse ''[subcircuit Amp]\<newline>expose a\<newline>[/subcircuit]\<newline>Amp X1'' =
     Inl (ValueError (''On line 4: Unknown command or component type '' @ quoted ''amp''))"
  by code_simp

text \<open>
  C8. The marker \<open>[subcircuit ]\<close> splits into two parts, so the check for a missing
  name passes; the name is what is left of \<open>]\<close> once blanks and brackets are stripped,
  the empty string. The block is entered and a definition is registered under \<open>''\<close>.
\<close>

theorem C8_nameless_marker_accepted:
  "parse ''[subcircuit ]\<newline>expose a\<newline>[/subcircuit]'' =
     Inr \<lparr>components = [], nodes = [],
          subcircuit_definitions =
            [([], \<lparr>subcircuit_name = [], interface = [''a''], body_text = []\<rparr>)],
          ground_node_name = None, next_ident = 0\<rparr>"
  by code_simp

section \<open>Redefining a subcircuit\<close>

lemma parse_lines_snoc:
  assumes "parse_lines st k pre = Inr st1" and "process_line st1 (strip l) = Inr st2"
  shows "parse_lines st k (pre @ [l]) = Inr st2"
  using assms by (simp add: parse_lines_append)

lemma parse_whole_document:
  assumes "document_lines text = ls" and "parse_lines initial_state 1 ls = Inr st"
    and "\<not> in_subcircuit_block st"
  shows "parse text = Inr (circuit_of st)"
  using assms by (simp add: parse_def)





section \<open>Nodes, identities and a component line\<close>

lemma extends_refl: "extends c c"
  by (simp add: extends_def)

lemma extends_trans: "extends c c' \<Longrightarrow> extends c' c'' \<Longrightarrow> extends c c''"
  by (simp add: extends_def)

lemma update_absent:
  "\<not> dict_contains k al \<Longrightarrow> AList.update k v al = al @ [(k, v)]"
  by (induction al) (auto simp: dict_contains_def)

lemma map_of_absent:
  "\<not> dict_contains k al \<Longrightarrow> map_of al k = None"
  by (simp add: dict_contains_def map_of_eq_None_iff)

lemma nodes_ok_new: "nodes_ok new_Circuit"
  by (simp add: nodes_ok_def new_Circuit_def)

lemma declare_node_ok:
  assumes "declare_node c n = Inr c'" and "nodes_ok c"
  shows "nodes_ok c'"
proof -
  from assms(1) have absent: "\<not> dict_contains n (nodes c)"
    and c': "c' = c\<lparr>nodes := AList.update n \<lparr>node_ident = next_ident c, node_name = n\<rparr> (nodes c),
                    next_ident := Suc (next_ident c)\<rparr>"
    by (auto simp: declare_node_def split: if_splits)
  have nodes': "nodes c' = nodes c @ [(n, \<lparr>node_ident = next_ident c, node_name = n\<rparr>)]"
    and nxt: "next_ident c' = Suc (next_ident c)"
    using c' update_absent[OF absent] by simp_all
  from assms(2) have "next_ident c \<notin> (\<lambda>p. node_ident (snd p)) ` set (nodes c)"
    by (auto simp: nodes_ok_def)
  with assms(2) show ?thesis
    unfolding nodes_ok_def nodes' nxt by (auto simp: less_Suc_eq)
qed

lemma declare_node_extends:
  assumes "declare_node c n = Inr c'"
  shows "extends c c'"
proof -
  from assms have absent: "\<not> dict_contains n (nodes c)"
    and c': "c' = c\<lparr>nodes := AList.update n \<lparr>node_ident = next_ident c, node_name = n\<rparr> (nodes c),
                    next_ident := Suc (next_ident c)\<rparr>"
    by (auto simp: declare_node_def split: if_splits)
  from map_of_absent[OF absent] show ?thesis
    unfolding extends_def c' by (auto simp: AList.update_conv')
qed

lemma declare_nodes_ok:
  "declare_nodes c ns = Inr c' \<Longrightarrow> nodes_ok c \<Longrightarrow> nodes_ok c'"
  by (induction ns arbitrary: c)
     (auto simp: Let_def split: if_splits sum.splits dest: declare_node_ok)

lemma declare_nodes_extends:
  "declare_nodes c ns = Inr c' \<Longrightarrow> extends c c'"
proof (induction ns arbitrary: c)
  case Nil
  then show ?case by (simp add: extends_refl)
next
  case (Cons n ns)
  then show ?case
    by (auto simp: Let_def split: if_splits sum.splits
             dest!: declare_node_extends intro: extends_trans)
qed

lemma nodes_ok_same:
  "nodes c' = nodes c \<Longrightarrow> next_ident c' = next_ident c \<Longrightarrow> nodes_ok c \<Longrightarrow> nodes_ok c'"
  by (simp add: nodes_ok_def)

lemma extends_same:
  "nodes c' = nodes c \<Longrightarrow> extends c0 c \<Longrightarrow>
   (\<And>k v. map_of (components c) k = Some v \<Longrightarrow> map_of (components c') k = Some v) \<Longrightarrow>
   extends c0 c'"
  by (simp add: extends_def)

lemma set_ground_node_ok:
  assumes "set_ground_node c n = Inr c'" and "nodes_ok c"
  shows "nodes_ok c'"
proof (cases "dict_contains n (nodes c)")
  case True
  with assms(1) have "c' = c\<lparr>ground_node_name := Some n\<rparr>"
    by (auto simp: set_ground_node_def split: if_splits)
  then show ?thesis using assms(2) by (simp add: nodes_ok_def)
next
  case False
  with assms(1) obtain c1 where 1: "declare_node c n = Inr c1"
      and c': "c' = c1\<lparr>ground_node_name := Some n\<rparr>"
    by (auto simp: set_ground_node_def split: if_splits sum.splits)
  from declare_node_ok[OF 1 assms(2)] show ?thesis
    by (rule nodes_ok_same[rotated 2]) (simp_all add: c')
qed

lemma set_ground_node_extends:
  assumes "set_ground_node c n = Inr c'"
  shows "extends c c'"
proof (cases "dict_contains n (nodes c)")
  case True
  with assms(1) have "c' = c\<lparr>ground_node_name := Some n\<rparr>"
    by (auto simp: set_ground_node_def split: if_splits)
  then show ?thesis by (simp add: extends_def)
next
  case False
  with assms(1) obtain c1 where 1: "declare_node c n = Inr c1"
      and c': "c' = c1\<lparr>ground_node_name := Some n\<rparr>"
    by (auto simp: set_ground_node_def split: if_splits sum.splits)
  from declare_node_extends[OF 1] show ?thesis
    by (rule extends_same[rotated 1]) (simp_all add: c')
qed

lemma add_component_result:
  assumes "add_component c k = Inr c'"
  shows "\<not> dict_contains (component_name k) (components c)"
    and "c' = c\<lparr>components := components c @ [(component_name k, k)]\<rparr>"
  using assms by (auto simp: add_component_def update_absent split: if_splits)

lemma parse_component_line_result:
  assumes "parse_component_line line c = Inr c'"
  shows "\<exists>k. \<not> dict_contains (component_name k) (components c)
           \<and> c' = c\<lparr>components := components c @ [(component_name k, k)]\<rparr>"
  using assms
  by (auto simp: parse_component_line_def check_and_add_def
           split: sum.splits if_splits dest: add_component_result)

lemma parse_component_line_ok:
  assumes "parse_component_line line c = Inr c'" and "nodes_ok c"
  shows "nodes_ok c'"
proof -
  from parse_component_line_result[OF assms(1)]
  have "nodes c' = nodes c" "next_ident c' = next_ident c" by auto
  then show ?thesis using assms(2) by (rule nodes_ok_same)
qed

lemma parse_component_line_extends:
  assumes "parse_component_line line c = Inr c'"
  shows "extends c c'"
proof -
  from parse_component_line_result[OF assms] obtain k
    where absent: "\<not> dict_contains (component_name k) (components c)"
      and c': "c' = c\<lparr>components := components c @ [(component_name k, k)]\<rparr>"
    by blast
  from map_of_absent[OF absent] show ?thesis
    unfolding extends_def c' by (auto simp: map_add_def split: option.splits)
qed

lemma parse_subcircuit_block_result:
  assumes "parse_subcircuit_block sname ls c = Inr c'"
  shows "nodes c' = nodes c" "components c' = components c" "next_ident c' = next_ident c"
  using assms
  by (auto simp: parse_subcircuit_block_def split: sum.splits if_splits prod.splits)

lemma parse_subcircuit_block_ok:
  assumes "parse_subcircuit_block sname ls c = Inr c'" and "nodes_ok c"
  shows "nodes_ok c'"
  using parse_subcircuit_block_result[OF assms(1)] assms(2) by (simp add: nodes_ok_def)

lemma parse_subcircuit_block_extends:
  assumes "parse_subcircuit_block sname ls c = Inr c'"
  shows "extends c c'"
  using parse_subcircuit_block_result[OF assms(1)] by (simp add: extends_def)

lemma run_command_ok:
  "run_command c line tokens = Inr c' \<Longrightarrow> nodes_ok c \<Longrightarrow> nodes_ok c'"
  by (auto simp: run_command_def Let_def split: if_splits
           dest: declare_nodes_ok set_ground_node_ok parse_component_line_ok)

lemma run_command_extends:
  "run_command c line tokens = Inr c' \<Longrightarrow> extends c c'"
  by (auto simp: run_command_def Let_def split: if_splits
           dest: declare_nodes_extends set_ground_node_extends parse_component_line_extends)

lemma process_line_ok:
  assumes "process_line st line = Inr st'" and "nodes_ok (circuit_of st)"
  shows "nodes_ok (circuit_of st')"
  using assms
  by (auto simp: process_line_def Let_def split: if_splits sum.splits
           dest: run_command_ok parse_subcircuit_block_ok)

lemma process_line_extends:
  assumes "process_line st line = Inr st'"
  shows "extends (circuit_of st) (circuit_of st')"
  using assms
  by (auto simp: process_line_def Let_def extends_refl split: if_splits sum.splits
           dest: run_command_extends parse_subcircuit_block_extends)

lemma parse_lines_ok:
  "parse_lines st k ls = Inr st' \<Longrightarrow> nodes_ok (circuit_of st) \<Longrightarrow> nodes_ok (circuit_of st')"
  by (induction ls arbitrary: st k) (auto split: sum.splits dest: process_line_ok)

lemma parse_lines_extends:
  "parse_lines st k ls = Inr st' \<Longrightarrow> extends (circuit_of st) (circuit_of st')"
proof (induction ls arbitrary: st k)
  case Nil
  then show ?case by (simp add: extends_refl)
next
  case (Cons l ls)
  then show ?case
    by (auto split: sum.splits dest!: process_line_extends intro: extends_trans)
qed


lemma nodes_ok_idents:
  assumes "nodes_ok c" and "map_of (nodes c) k1 = Some a" and "map_of (nodes c) k2 = Some b"
    and "k1 \<noteq> k2"
  shows "node_ident a \<noteq> node_ident b"
proof -
  from assms(1) have "inj_on (\<lambda>p. node_ident (snd p)) (set (nodes c))"
    by (simp add: nodes_ok_def distinct_map)
  moreover have "(k1, a) \<in> set (nodes c)" "(k2, b) \<in> set (nodes c)"
    using assms(2,3) by (auto dest: map_of_SomeD)
  ultimately show ?thesis
    using assms(4) unfolding inj_on_def by fastforce
qed

lemma nodes_ok_name:
  assumes "nodes_ok c" and "map_of (nodes c) k = Some a"
  shows "node_name a = k"
  using assms by (auto simp: nodes_ok_def dest!: map_of_SomeD)

lemma dict_contains_lookup:
  "dict_contains k al \<Longrightarrow> \<exists>v. map_of al k = Some v"
  by (cases "map_of al k") (auto simp: dict_contains_def map_of_eq_None_iff)

lemma resistor_line_component:
  assumes "map_of (nodes c) ''n1'' = Some a" and "map_of (nodes c) ''n2'' = Some b"
  shows "component_of_tokens [''resistor'', ''R1'', ''10k'', ''from'', ''n1'', ''to'', ''n2''] c
         = Inr \<lparr>component_type = ''resistor'', component_name = ''R1'',
                primary_value = Some ''10k'', properties = [],
                connections = [(''from'', a), (''to'', b)]\<rparr>"
proof -
  have 1: "lower ''resistor'' = ''resistor''"
    by code_simp
  have 2: "take_primary_value [''10k'', ''from'', ''n1'', ''to'', ''n2'']
             = (Some ''10k'', [''from'', ''n1'', ''to'', ''n2''])"
    by code_simp
  show ?thesis
    using assms
    by (simp add: component_of_tokens_def 1 2 get_node_def add_connection_def
                  new_Component_def)
qed

lemma resistor_line:
  assumes "map_of (nodes c) ''n1'' = Some a" and "map_of (nodes c) ''n2'' = Some b"
    and "node_ident a \<noteq> node_ident b" and "\<not> dict_contains ''R1'' (components c)"
  shows "parse_component_line ''resistor R1 10k from n1 to n2'' c
         = Inr (c\<lparr>components := components c @
                  [(''R1'', \<lparr>component_type = ''resistor'', component_name = ''R1'',
                            primary_value = Some ''10k'', properties = [],
                            connections = [(''from'', a), (''to'', b)]\<rparr>)]\<rparr>)"
proof -
  let ?k = "\<lparr>component_type = ''resistor'', component_name = ''R1'',
            primary_value = Some ''10k'', properties = [],
            connections = [(''from'', a), (''to'', b)]\<rparr>"
  have t: "shlex_split ''resistor R1 10k from n1 to n2''
             = Inr [''resistor'', ''R1'', ''10k'', ''from'', ''n1'', ''to'', ''n2'']"
    by code_simp
  have s: "\<not> is_shorted ?k"
    using assms(3) by (simp add: is_shorted_iff)
  show ?thesis
    using assms(4) s
    by (simp add: parse_component_line_def t resistor_line_component[OF assms(1,2)]
                  check_and_add_def add_component_def update_absent)
qed

lemma resistor_line_dispatch:
  assumes "\<not> in_subcircuit_block st"
  shows "process_line st ''resistor R1 10k from n1 to n2'' =
           (case parse_component_line ''resistor R1 10k from n1 to n2'' (circuit_of st) of
              Inl e \<Rightarrow> Inl e
            | Inr c' \<Rightarrow> Inr (st\<lparr>circuit_of := c'\<rparr>))"
proof -
  have t: "shlex_split ''resistor R1 10k from n1 to n2''
             = Inr [''resistor'', ''R1'', ''10k'', ''from'', ''n1'', ''to'', ''n2'']"
    by code_simp
  have m: "\<not> startswith ''resistor R1 10k from n1 to n2'' ''[/subcircuit]''"
    "\<not> startswith ''resistor R1 10k from n1 to n2'' ''[subcircuit''"
    "\<not> startswith ''resistor R1 10k from n1 to n2'' ''#''"
    by (simp_all add: startswith_def)
  have l: "lower ''resistor'' = ''resistor''"
    by code_simp
  have d: "dict_contains ''resistor'' COMPONENT_SCHEMA"
    by code_simp
  show ?thesis
    using assms by (simp add: process_line_def t m run_command_def l d)
qed


text \<open>
  C1. Let the lines before the component line be parsed without error and leave the
  parser outside a block, with nodes \<open>n1\<close> and \<open>n2\<close> declared and no component named
  \<open>R1\<close> yet. Then the line \<open>resistor R1 10k from n1 to n2\<close> is parsed without error
  and registers under \<open>R1\<close> a component of type \<open>resistor\<close> named \<open>R1\<close> with
  primary value \<open>10k\<close>, no properties, pin \<open>from\<close> on the node registered under
  \<open>n1\<close> and pin \<open>to\<close> on the node registered under \<open>n2\<close>. When the document ends
  with that line \<open>parse\<close> returns this circuit, and whatever follows the line, a circuit
  that \<open>parse\<close> returns holds the same component on the same two nodes.
\<close>

theorem C1_resistor_line:
  assumes "parse_lines initial_state 1 pre = Inr st"
    and "\<not> in_subcircuit_block st"
    and "dict_contains ''n1'' (nodes (circuit_of st))"
    and "dict_contains ''n2'' (nodes (circuit_of st))"
    and "\<not> dict_contains ''R1'' (components (circuit_of st))"
    and "strip l = ''resistor R1 10k from n1 to n2''"
    and "document_lines text = pre @ [l] @ post"
  shows "\<exists>st' a b.
           parse_lines initial_state 1 (pre @ [l]) = Inr st'
         \<and> map_of (nodes (circuit_of st')) ''n1'' = Some a \<and> node_name a = ''n1''
         \<and> map_of (nodes (circuit_of st')) ''n2'' = Some b \<and> node_name b = ''n2''
         \<and> map_of (components (circuit_of st')) ''R1'' =
             Some \<lparr>component_type = ''resistor'', component_name = ''R1'',
                   primary_value = Some ''10k'', properties = [],
                   connections = [(''from'', a), (''to'', b)]\<rparr>
         \<and> (post = [] \<longrightarrow> parse text = Inr (circuit_of st'))
         \<and> (\<forall>c. parse text = Inr c \<longrightarrow>
                map_of (components c) ''R1'' =
                  Some \<lparr>component_type = ''resistor'', component_name = ''R1'',
                        primary_value = Some ''10k'', properties = [],
                        connections = [(''from'', a), (''to'', b)]\<rparr>
              \<and> map_of (nodes c) ''n1'' = Some a \<and> map_of (nodes c) ''n2'' = Some b)"
proof -
  let ?c = "circuit_of st"
  have ok: "nodes_ok ?c"
    using parse_lines_ok[OF assms(1)] nodes_ok_new by (simp add: initial_state_def)
  from dict_contains_lookup[OF assms(3)] obtain a where a: "map_of (nodes ?c) ''n1'' = Some a"
    by blast
  from dict_contains_lookup[OF assms(4)] obtain b where b: "map_of (nodes ?c) ''n2'' = Some b"
    by blast
  let ?k = "\<lparr>component_type = ''resistor'', component_name = ''R1'',
            primary_value = Some ''10k'', properties = [],
            connections = [(''from'', a), (''to'', b)]\<rparr>"
  let ?c1 = "?c\<lparr>components := components ?c @ [(''R1'', ?k)]\<rparr>"
  let ?st1 = "st\<lparr>circuit_of := ?c1\<rparr>"
  have ids: "node_ident a \<noteq> node_ident b"
    by (rule nodes_ok_idents[OF ok a b]) simp
  have names: "node_name a = ''n1''" "node_name b = ''n2''"
    using nodes_ok_name[OF ok a] nodes_ok_name[OF ok b] by simp_all
  have line: "parse_component_line ''resistor R1 10k from n1 to n2'' ?c = Inr ?c1"
    by (rule resistor_line[OF a b ids assms(5)])
  have step: "process_line st (strip l) = Inr ?st1"
    unfolding assms(6) resistor_line_dispatch[OF assms(2)] line by simp
  have run: "parse_lines initial_state 1 (pre @ [l]) = Inr ?st1"
    by (rule parse_lines_snoc[OF assms(1) step])
  have r1: "map_of (components ?c1) ''R1'' = Some ?k"
    using map_of_absent[OF assms(5)] by (simp add: map_add_def)
  have n1: "map_of (nodes ?c1) ''n1'' = Some a" "map_of (nodes ?c1) ''n2'' = Some b"
    using a b by simp_all
  have whole: "parse text = Inr (circuit_of ?st1)" if "post = []"
    using parse_whole_document[of "text" "pre @ [l]" ?st1] assms(2,7) run that by simp
  have later: "map_of (components c) ''R1'' = Some ?k
      \<and> map_of (nodes c) ''n1'' = Some a \<and> map_of (nodes c) ''n2'' = Some b"
    if "parse text = Inr c" for c
  proof -
    from that obtain stf where f: "parse_lines initial_state 1 (document_lines text) = Inr stf"
      and c: "c = circuit_of stf"
      by (auto simp: parse_def split: sum.splits if_splits)
    from f have "parse_lines ?st1 (1 + length (pre @ [l])) post = Inr stf"
      using run parse_lines_append[of initial_state 1 "pre @ [l]" post] assms(7) by simp
    from parse_lines_extends[OF this] have "extends ?c1 c"
      by (simp add: c)
    with r1 n1 show ?thesis
      unfolding extends_def by blast
  qed
  from run names r1 n1 whole later show ?thesis
    by (intro exI[of _ ?st1] exI[of _ a] exI[of _ b]) simp
qed

theorem C1_resistor_line_witness:
  "\<exists>c a b. parse ''node n1, n2\<newline>resistor R1 10k from n1 to n2'' = Inr c
     \<and> map_of (nodes c) ''n1'' = Some a \<and> node_name a = ''n1''
     \<and> map_of (nodes c) ''n2'' = Some b \<and> node_name b = ''n2''
     \<and> map_of (components c) ''R1'' =
         Some \<lparr>component_type = ''resistor'', component_name = ''R1'',
               primary_value = Some ''10k'', properties = [],
               connections = [(''from'', a), (''to'', b)]\<rparr>"
proof -
  let ?text = "''node n1, n2\<newline>resistor R1 10k from n1 to n2''"
  let ?st = "initial_state\<lparr>circuit_of := new_Circuit\<lparr>nodes :=
               [(''n1'', \<lparr>node_ident = 0, node_name = ''n1''\<rparr>),
                (''n2'', \<lparr>node_ident = 1, node_name = ''n2''\<rparr>)], next_ident := 2\<rparr>\<rparr>"
  have 1: "parse_lines initial_state 1 [''node n1, n2''] = Inr ?st"
    by code_simp
  have 2: "\<not> in_subcircuit_block ?st"
    by (simp add: initial_state_def)
  have 3: "dict_contains ''n1'' (nodes (circuit_of ?st))"
    "dict_contains ''n2'' (nodes (circuit_of ?st))"
    by (simp_all add: dict_contains_def)
  have 4: "\<not> dict_contains ''R1'' (components (circuit_of ?st))"
    by (simp add: dict_contains_def new_Circuit_def)
  have 5: "strip ''resistor R1 10k from n1 to n2'' = ''resistor R1 10k from n1 to n2''"
    by code_simp
  have 6: "document_lines ?text = [''node n1, n2''] @ [''resistor R1 10k from n1 to n2''] @ []"
    by code_simp
  note t = C1_resistor_line[OF 1 2 3 4 5 6, unfolded simp_thms]
  from t show ?thesis
    apply (elim exE conjE)
    subgoal for st' a b
      by (intro exI[of _ "circuit_of st'"] exI[of _ a] exI[of _ b] conjI) assumption+
    done
qed

section \<open>Keys of a component line\<close>

lemma consume_tokens_prefix:
  "consume_tokens ct cn c cmpt pre = Inr kept \<Longrightarrow>
   consume_tokens ct cn c cmpt (pre @ rest) = consume_tokens ct cn c kept rest"
proof (induction ct cn c cmpt pre rule: consume_tokens.induct)
  case (1 ct cn c cmpt)
  then show ?case by simp
next
  case (2 ct cn c cmpt token tokens)
  show ?case
  proof (cases "token = ''from''")
    case True
    with "2.prems" obtain f nt t tokens' where tk: "tokens = f # nt # t # tokens'"
      by (cases tokens rule: list.exhaust[case_names Nil Cons])
         (auto split: list.splits)
    with True "2.prems" obtain fnode tnode where
      g: "f \<noteq> []" "get_node c f = Inr fnode" "nt = ''to''" "t \<noteq> []" "get_node c t = Inr tnode"
      and r: "consume_tokens ct cn c
                (add_connection (add_connection cmpt ''from'' fnode) ''to'' tnode) tokens'
              = Inr kept"
      by (auto split: if_splits sum.splits)
    have "consume_tokens ct cn c
            (add_connection (add_connection cmpt ''from'' fnode) ''to'' tnode) (tokens' @ rest)
          = consume_tokens ct cn c kept rest"
      by (rule "2.IH"(1)[of f "nt # t # tokens'" nt "t # tokens'" t tokens' fnode tnode])
         (use True tk g r in simp_all)
    with True tk g show ?thesis by simp
  next
    case False
    show ?thesis
    proof (cases "CHR ''='' \<in> set token")
      case eq: True
      obtain key val where kv: "split_once CHR ''='' token = (key, val)"
        by (cases "split_once CHR ''='' token")
      from False eq kv "2.prems" have nz: "key \<noteq> []" "val \<noteq> []"
        by (auto split: if_splits)
      show ?thesis
      proof (cases "key \<in> set (valid_pins_of ct)")
        case pin: True
        with False eq kv nz "2.prems" obtain node where
          n: "get_node c val = Inr node"
          and r: "consume_tokens ct cn c (add_connection cmpt key node) tokens = Inr kept"
          by (auto split: sum.splits)
        have "consume_tokens ct cn c (add_connection cmpt key node) (tokens @ rest)
              = consume_tokens ct cn c kept rest"
          by (rule "2.IH"(2)[of key val node])
             (use False eq kv nz pin n r in simp_all)
        with False eq kv nz pin n show ?thesis by simp
      next
        case nopin: False
        with False eq kv nz "2.prems" have known: "key \<in> set KNOWN_PROPERTIES"
          and r: "consume_tokens ct cn c (add_property cmpt key val) tokens = Inr kept"
          by (auto split: if_splits)
        have "consume_tokens ct cn c (add_property cmpt key val) (tokens @ rest)
              = consume_tokens ct cn c kept rest"
          by (rule "2.IH"(3)[of key val])
             (use False eq kv nz nopin known r in simp_all)
        with False eq kv nz nopin known show ?thesis by simp
      qed
    next
      case False
      with \<open>token \<noteq> ''from''\<close> "2.prems" show ?thesis by simp
    qed
  qed
qed

lemma valid_pins_of_subset: "set (valid_pins_of ct) \<subseteq> {''from'', ''to''}"
  by (auto simp: valid_pins_of_def COMPONENT_SCHEMA_def split: option.splits if_splits)

lemma consume_invalid_key:
  assumes "CHR ''='' \<in> set token" and "split_once CHR ''='' token = (key, val)"
    and "key \<noteq> []" and "val \<noteq> []"
    and "key \<notin> set (valid_pins_of ct)" and "key \<notin> set KNOWN_PROPERTIES"
  shows "consume_tokens ct cn c cmpt (token # rest) =
           Inl (ValueError (''Invalid pin or property '' @ quoted key
                  @ '' for component type '' @ quoted ct))"
proof -
  from assms(1) have "token \<noteq> ''from''" by auto
  with assms show ?thesis by simp
qed

lemma consume_known_property:
  assumes "CHR ''='' \<in> set token" and "split_once CHR ''='' token = (key, val)"
    and "key \<in> set [''model'', ''tolerance'', ''power'', ''color'', ''state'',
                     ''amplitude'', ''frequency'']"
    and "val \<noteq> []"
  shows "consume_tokens ct cn c cmpt (token # rest) =
           consume_tokens ct cn c (add_property cmpt key val) rest"
proof -
  from assms(1) have 1: "token \<noteq> ''from''" by auto
  from assms(3) have 2: "key \<noteq> []" and 3: "key \<in> set KNOWN_PROPERTIES"
    and 4: "key \<notin> {''from'', ''to''}"
    by (auto simp: KNOWN_PROPERTIES_def)
  from 4 have 5: "key \<notin> set (valid_pins_of ct)"
    using valid_pins_of_subset[of ct] by auto
  show ?thesis
    using assms(1,2,4) 1 2 3 5 by simp
qed

text \<open>
  C2 (as amended). When the tokens of a component line before a \<open>key=value\<close> token are
  consumed without error, and the key and the value are not empty, and the key is neither
  a pin name of the schema of the component type nor one of \<open>KNOWN_PROPERTIES\<close>, the
  line fails with the error \<open>Invalid pin or property 'key' for component type 'type'\<close>.
  The known property names \<open>model\<close>, \<open>tolerance\<close>, \<open>power\<close>, \<open>color\<close>, \<open>state\<close>,
  \<open>amplitude\<close> and \<open>frequency\<close> are accepted for every component type: a token
  with one of them as key and a value that is not empty is recorded as a property, and
  the loop goes on.
\<close>

theorem C2_invalid_key:
  assumes "shlex_split line = Inr (t0 # cname # tokens1)"
    and "take_primary_value tokens1 = (pvalue, pre @ token # rest)"
    and "consume_tokens (lower t0) cname circuit (new_Component (lower t0) cname pvalue) pre
           = Inr component"
    and "CHR ''='' \<in> set token" and "split_once CHR ''='' token = (key, val)"
    and "key \<noteq> []" and "val \<noteq> []"
    and "key \<notin> set (valid_pins_of (lower t0))" and "key \<notin> set KNOWN_PROPERTIES"
  shows "parse_component_line line circuit =
           Inl (ValueError (''Invalid pin or property '' @ quoted key
                  @ '' for component type '' @ quoted (lower t0)))
         \<and> ''frequency'' \<in> set KNOWN_PROPERTIES
         \<and> (CHR ''='' \<in> set token2 \<and> split_once CHR ''='' token2 = (key2, val2)
              \<and> key2 \<in> set [''model'', ''tolerance'', ''power'', ''color'', ''state'',
                              ''amplitude'', ''frequency'']
              \<and> val2 \<noteq> []
            \<longrightarrow> consume_tokens ct cn circuit cmpt (token2 # later) =
                  consume_tokens ct cn circuit (add_property cmpt key2 val2) later)"
proof -
  have "consume_tokens (lower t0) cname circuit (new_Component (lower t0) cname pvalue)
          (pre @ token # rest)
        = consume_tokens (lower t0) cname circuit component (token # rest)"
    by (rule consume_tokens_prefix[OF assms(3)])
  also have "\<dots> = Inl (ValueError (''Invalid pin or property '' @ quoted key
                  @ '' for component type '' @ quoted (lower t0)))"
    by (rule consume_invalid_key[OF assms(4-9)])
  finally have "component_of_tokens (t0 # cname # tokens1) circuit =
      Inl (ValueError (''Invalid pin or property '' @ quoted key
                  @ '' for component type '' @ quoted (lower t0)))"
    using assms(2) by (simp add: component_of_tokens_def)
  then have "parse_component_line line circuit =
           Inl (ValueError (''Invalid pin or property '' @ quoted key
                  @ '' for component type '' @ quoted (lower t0)))"
    using assms(1) by (simp add: parse_component_line_def)
  moreover have "''frequency'' \<in> set KNOWN_PROPERTIES"
    by (simp add: KNOWN_PROPERTIES_def)
  ultimately show ?thesis
    using consume_known_property[of token2 key2 val2 ct cn circuit cmpt later] by blast
qed

theorem C2_invalid_key_witness:
  "parse_component_line ''capacitor C1 from n1 to n2 colour=red''
     (new_Circuit\<lparr>nodes :=
        [(''n1'', \<lparr>node_ident = 0, node_name = ''n1''\<rparr>),
         (''n2'', \<lparr>node_ident = 1, node_name = ''n2''\<rparr>)], next_ident := 2\<rparr>)
   = Inl (ValueError (''Invalid pin or property '' @ quoted ''colour''
            @ '' for component type '' @ quoted ''capacitor''))
   \<and> consume_tokens ''switch'' ''S1''
       (new_Circuit\<lparr>nodes :=
          [(''n1'', \<lparr>node_ident = 0, node_name = ''n1''\<rparr>),
           (''n2'', \<lparr>node_ident = 1, node_name = ''n2''\<rparr>)], next_ident := 2\<rparr>)
       (new_Component ''switch'' ''S1'' None) (''state=open'' # [])
     = Inr (add_property (new_Component ''switch'' ''S1'' None) ''state'' ''open'')"
proof -
  let ?c = "new_Circuit\<lparr>nodes :=
        [(''n1'', \<lparr>node_ident = 0, node_name = ''n1''\<rparr>),
         (''n2'', \<lparr>node_ident = 1, node_name = ''n2''\<rparr>)], next_ident := 2\<rparr>"
  let ?k = "\<lparr>component_type = ''capacitor'', component_name = ''C1'', primary_value = None,
             properties = [],
             connections = [(''from'', \<lparr>node_ident = 0, node_name = ''n1''\<rparr>),
                            (''to'', \<lparr>node_ident = 1, node_name = ''n2''\<rparr>)]\<rparr>"
  have l: "lower ''capacitor'' = ''capacitor''"
    by code_simp
  have 1: "shlex_split ''capacitor C1 from n1 to n2 colour=red''
             = Inr (''capacitor'' # ''C1'' # [''from'', ''n1'', ''to'', ''n2'', ''colour=red''])"
    by code_simp
  have 2: "take_primary_value [''from'', ''n1'', ''to'', ''n2'', ''colour=red'']
             = (None, [''from'', ''n1'', ''to'', ''n2''] @ ''colour=red'' # [])"
    by code_simp
  have 3: "consume_tokens (lower ''capacitor'') ''C1'' ?c
             (new_Component (lower ''capacitor'') ''C1'' None) [''from'', ''n1'', ''to'', ''n2'']
           = Inr ?k"
    by code_simp
  have 4: "CHR ''='' \<in> set ''colour=red''"
    by simp
  have 5: "split_once CHR ''='' ''colour=red'' = (''colour'', ''red'')"
    by code_simp
  have 6: "''colour'' \<noteq> []" "''red'' \<noteq> []"
    by simp_all
  have 7: "''colour'' \<notin> set (valid_pins_of (lower ''capacitor''))"
    by code_simp
  have 8: "''colour'' \<notin> set KNOWN_PROPERTIES"
    by code_simp
  have 9: "CHR ''='' \<in> set ''state=open''
      \<and> split_once CHR ''='' ''state=open'' = (''state'', ''open'')
      \<and> ''state'' \<in> set [''model'', ''tolerance'', ''power'', ''color'', ''state'',
                           ''amplitude'', ''frequency'']
      \<and> ''open'' \<noteq> []"
    by code_simp
  note t = C2_invalid_key[OF 1 2 3 4 5 6 7 8, where ?token2.0 = "''state=open''"
      and ?key2.0 = "''state''" and ?val2.0 = "''open''" and ct = "''switch''"
      and cn = "''S1''" and cmpt = "new_Component ''switch'' ''S1'' None" and later = "[]"]
  from t have a: "parse_component_line ''capacitor C1 from n1 to n2 colour=red'' ?c
      = Inl (ValueError (''Invalid pin or property '' @ quoted ''colour''
            @ '' for component type '' @ quoted ''capacitor''))"
    unfolding l by (rule conjunct1)
  from t 9 have b: "consume_tokens ''switch'' ''S1'' ?c
       (new_Component ''switch'' ''S1'' None) (''state=open'' # [])
     = consume_tokens ''switch'' ''S1'' ?c
         (add_property (new_Component ''switch'' ''S1'' None) ''state'' ''open'') []"
    by blast
  from a b show ?thesis by simp
qed

text \<open>
  The claim C2 as stated fails on its own example: with \<open>n1\<close> and \<open>n2\<close> declared, the
  line \<open>capacitor C1 from n1 to n2 frequency=1k\<close> is parsed without error and the
  capacitor has the property \<open>frequency = 1k\<close>.
\<close>

theorem C2_frequency_accepted:
  "parse ''node n1, n2\<newline>capacitor C1 from n1 to n2 frequency=1k'' =
     Inr \<lparr>components =
            [(''C1'', \<lparr>component_type = ''capacitor'', component_name = ''C1'',
                       primary_value = None, properties = [(''frequency'', ''1k'')],
                       connections =
                         [(''from'', \<lparr>node_ident = 0, node_name = ''n1''\<rparr>),
                          (''to'', \<lparr>node_ident = 1, node_name = ''n2''\<rparr>)]\<rparr>)],
          nodes = [(''n1'', \<lparr>node_ident = 0, node_name = ''n1''\<rparr>),
                   (''n2'', \<lparr>node_ident = 1, node_name = ''n2''\<rparr>)],
          subcircuit_definitions = [], ground_node_name = None, next_ident = 2\<rparr>"
  by code_simp

end
